theory Spec2Isabelle
  imports Main
begin

section \<open>The configuration parsers of pkg/config/config.go\<close>

text \<open>
  The package turns comma-separated configuration strings into the fields of
  \<^verbatim>\<open>K8sConfig\<close> and decodes the three raw JSON strings of \<^verbatim>\<open>AminoConfig\<close>.
  Every method mutates its receiver and returns a Go \<^verbatim>\<open>error\<close>; here a method takes
  the receiver and returns the pair of the returned error (\<open>None\<close> is \<^verbatim>\<open>nil\<close>)
  and the receiver as the call leaves it.
\<close>

subsection \<open>strings.Index and strings.Split for a one-byte separator\<close>

text \<open>
  A Go string is a sequence of bytes, as a HOL \<open>string\<close> is. The source calls
  \<^verbatim>\<open>strings.Split\<close> with the separators \<^verbatim>\<open>","\<close>, \<^verbatim>\<open>"="\<close> and \<^verbatim>\<open>"/"\<close> only, each one byte
  long, so the separator is a \<open>char\<close>. \<open>Index\<close> is the position of the first
  occurrence (\<open>None\<close> stands for \<^verbatim>\<open>-1\<close>). \<open>Split\<close> follows the loop of the standard
  library: cut \<^verbatim>\<open>s[:m]\<close> off at the first separator, go on with \<^verbatim>\<open>s[m+1:]\<close>, and
  end with what is left.
\<close>

fun Index :: "string \<Rightarrow> char \<Rightarrow> nat option" where
  "Index [] sep = None"
| "Index (c # cs) sep = (if c = sep then Some 0 else map_option Suc (Index cs sep))"

function Split :: "string \<Rightarrow> char \<Rightarrow> string list" where
  "Split s sep =
     (case Index s sep of
        None \<Rightarrow> [s]
      | Some m \<Rightarrow> take m s # Split (drop (Suc m) s) sep)"
  by pat_completeness auto
termination
proof (relation "measure (\<lambda>(s, sep). length s)")
  show "wf (measure (\<lambda>(s, sep). length s))" by simp
next
  fix s :: string and sep m
  assume found: "Index s sep = Some m"
  have "Index t sep = Some n \<Longrightarrow> n < length t" for t n
    by (induction t arbitrary: n) (auto split: if_splits)
  with found have "m < length s" by blast
  then show "((drop (Suc m) s, sep), (s, sep)) \<in> measure (\<lambda>(s, sep). length s)"
    by simp
qed

declare Split.simps [simp del]

subsection \<open>Errors\<close>

text \<open>
  One constructor for each error the package builds, carrying the arguments of its
  format string in order. \<open>'e\<close> is the type of the errors that come from outside the
  package: the secret fetcher's and the JSON decoder's.
\<close>

datatype 'e error =
    MalformedRepo nat string
  | MalformedGroupBinding nat string
  | EmptyBinding nat string
  | NoLabelProvided
  | MalformedLabel string string
  | MalformedSecretInjection nat string
  | EmptySecretInjection nat string
  | FetchingSecret 'e string
  | UnmarshalingSecret 'e string
  | UnmarshalingHelmChartToRepo 'e
  | UnmarshalingAminoDeploymentToRepo 'e
  | UnmarshalingAminoJobToRepo 'e

subsection \<open>K8sConfig\<close>

text \<open>
  A Go map is \<^verbatim>\<open>nil\<close> or a table: \<open>None\<close> is the nil map, \<open>Some m\<close> a map made by
  \<^verbatim>\<open>make\<close> or by the decoder. A slice is a list; the nil slice and the empty slice are
  both \<open>[]\<close>, which no operation here tells apart.
\<close>

type_synonym bytes = "char list"

record K8sSecret =
  Data :: "(string \<rightharpoonup> bytes) option"
  Type :: string

record K8sConfig =
  GroupBindings :: "(string \<rightharpoonup> string) option"
  PrivilegedRepoWhitelist :: "string list"
  SecretInjections :: "(string \<rightharpoonup> K8sSecret) option"
  Labels :: "(string \<rightharpoonup> string) option"

subsection \<open>ProcessLabels\<close>

text \<open>
  The loop \<^verbatim>\<open>for _, labelStr := range labels\<close>, with the map built so far. The
  whole input \<open>labelsStr\<close> is only used in the error.
\<close>

fun labels_loop ::
  "string \<Rightarrow> (string \<rightharpoonup> string) \<Rightarrow> string list \<Rightarrow> 'e error option \<times> (string \<rightharpoonup> string)"
where
  "labels_loop labelsStr m [] = (None, m)"
| "labels_loop labelsStr m (labelStr # rest) =
     (let keyValPair = Split labelStr CHR ''=''
      in if length keyValPair \<noteq> 2 then (Some (MalformedLabel labelStr labelsStr), m)
         else labels_loop labelsStr (m(keyValPair ! 0 \<mapsto> keyValPair ! 1)) rest)"

definition ProcessLabels :: "K8sConfig \<Rightarrow> string \<Rightarrow> 'e error option \<times> K8sConfig" where
  "ProcessLabels kc labelsStr =
     (let labels = Split labelsStr CHR '',''
      in if length labels = 0 then (Some NoLabelProvided, kc\<lparr>Labels := Some Map.empty\<rparr>)
         else (case labels_loop labelsStr Map.empty labels of
                 (err, m) \<Rightarrow> (err, kc\<lparr>Labels := Some m\<rparr>)))"

text \<open>The zero value of the struct, as \<^verbatim>\<open>var k8scfg K8sConfig\<close> gives it.\<close>

definition K8sConfig_zero :: K8sConfig where
  "K8sConfig_zero =
     \<lparr>GroupBindings = None, PrivilegedRepoWhitelist = [],
      SecretInjections = None, Labels = None\<rparr>"

subsection \<open>ProcessPrivilegedRepos\<close>

text \<open>
  The field is assigned first; the loop \<^verbatim>\<open>for i, pr := range kc.PrivilegedRepoWhitelist\<close>
  then runs over the entries with their offsets and only reads them.
\<close>

fun repos_loop :: "(nat \<times> string) list \<Rightarrow> 'e error option" where
  "repos_loop [] = None"
| "repos_loop ((i, pr) # rest) =
     (let rsl = Split pr CHR ''/''
      in if length rsl \<noteq> 2 then Some (MalformedRepo i pr) else repos_loop rest)"

definition ProcessPrivilegedRepos ::
  "K8sConfig \<Rightarrow> string \<Rightarrow> 'e error option \<times> K8sConfig"
where
  "ProcessPrivilegedRepos kc repostr =
     (let kc1 = kc\<lparr>PrivilegedRepoWhitelist := Split repostr CHR '',''\<rparr>
      in (repos_loop (enumerate 0 (PrivilegedRepoWhitelist kc1)), kc1))"

subsection \<open>ProcessGroupBindings\<close>

fun bindings_loop ::
  "(string \<rightharpoonup> string) \<Rightarrow> (nat \<times> string) list \<Rightarrow> 'e error option \<times> (string \<rightharpoonup> string)"
where
  "bindings_loop m [] = (None, m)"
| "bindings_loop m ((i, gb) # rest) =
     (if gb = [] then bindings_loop m rest
      else let gbsl = Split gb CHR ''=''
           in if length gbsl \<noteq> 2 then (Some (MalformedGroupBinding i gb), m)
              else if length (gbsl ! 0) = 0 \<or> length (gbsl ! 1) = 0
                then (Some (EmptyBinding i gb), m)
              else bindings_loop (m(gbsl ! 0 \<mapsto> gbsl ! 1)) rest)"

definition ProcessGroupBindings ::
  "K8sConfig \<Rightarrow> string \<Rightarrow> 'e error option \<times> K8sConfig"
where
  "ProcessGroupBindings kc gbstr =
     (case bindings_loop Map.empty (enumerate 0 (Split gbstr CHR '','')) of
        (err, m) \<Rightarrow> (err, kc\<lparr>GroupBindings := Some m\<rparr>))"

text \<open>
  What the loop asks of an entry that is not empty: two parts, neither of them empty.
\<close>

definition binding_ok :: "string \<Rightarrow> bool" where
  "binding_ok e =
     (length (Split e CHR ''='') = 2
      \<and> Split e CHR ''='' ! 0 \<noteq> [] \<and> Split e CHR ''='' ! 1 \<noteq> [])"

subsection \<open>ProcessSecretInjections\<close>

text \<open>
  \<^verbatim>\<open>SecretFetcher\<close> is an interface: \<^verbatim>\<open>Get\<close> may read a store and may answer
  differently from call to call. It is a function of the fetcher's state \<open>'s\<close> and the
  identifier that returns the error or the bytes, and the next state. The decoder
  \<^verbatim>\<open>json.Unmarshal(val, &secret)\<close> writes into a fresh \<^verbatim>\<open>K8sSecret{}\<close>, so it is a
  function of the bytes alone; it is a parameter, as the fetcher is.
\<close>

type_synonym ('s, 'e) SecretFetcher = "'s \<Rightarrow> string \<Rightarrow> ('e + bytes) \<times> 's"

fun injections_loop ::
  "('s, 'e) SecretFetcher \<Rightarrow> (bytes \<Rightarrow> 'e + K8sSecret) \<Rightarrow> 's \<Rightarrow> (string \<rightharpoonup> K8sSecret) \<Rightarrow>
   (nat \<times> string) list \<Rightarrow> 'e error option \<times> (string \<rightharpoonup> K8sSecret) \<times> 's"
where
  "injections_loop Get Unmarshal st m [] = (None, m, st)"
| "injections_loop Get Unmarshal st m ((i, sstr) # rest) =
     (if sstr = [] then injections_loop Get Unmarshal st m rest
      else let ssl = Split sstr CHR ''=''
           in if length ssl \<noteq> 2 then (Some (MalformedSecretInjection i sstr), m, st)
              else if length (ssl ! 0) = 0 \<or> length (ssl ! 1) = 0
                then (Some (EmptySecretInjection i sstr), m, st)
              else (case Get st (ssl ! 1) of
                      (Inl err, st1) \<Rightarrow> (Some (FetchingSecret err (ssl ! 1)), m, st1)
                    | (Inr val, st1) \<Rightarrow>
                        (case Unmarshal val of
                           Inl err \<Rightarrow> (Some (UnmarshalingSecret err (ssl ! 1)), m, st1)
                         | Inr secret \<Rightarrow>
                             injections_loop Get Unmarshal st1 (m(ssl ! 0 \<mapsto> secret)) rest)))"

definition ProcessSecretInjections ::
  "('s, 'e) SecretFetcher \<Rightarrow> (bytes \<Rightarrow> 'e + K8sSecret) \<Rightarrow> 's \<Rightarrow> K8sConfig \<Rightarrow> string \<Rightarrow>
   'e error option \<times> K8sConfig \<times> 's"
where
  "ProcessSecretInjections Get Unmarshal st kc injstr =
     (case injections_loop Get Unmarshal st Map.empty (enumerate 0 (Split injstr CHR '','')) of
        (err, m, st1) \<Rightarrow> (err, kc\<lparr>SecretInjections := Some m\<rparr>, st1))"

subsection \<open>AminoConfig.Parse\<close>

text \<open>
  \<^verbatim>\<open>json.Unmarshal(raw, &field)\<close> decodes into the map the field holds: it may keep,
  extend or replace it, and it may have written to it when it returns an error. The
  decoder is therefore a parameter that takes the raw string and the field's value
  and returns the error (\<open>None\<close> is \<^verbatim>\<open>nil\<close>) and the field's new value.
\<close>

record AminoConfig =
  HelmChartToRepoRaw :: string
  HelmChartToRepo :: "(string \<rightharpoonup> string) option"
  AminoDeploymentToRepoRaw :: string
  AminoDeploymentToRepo :: "(string \<rightharpoonup> string) option"
  AminoJobToRepoRaw :: string
  AminoJobToRepo :: "(string \<rightharpoonup> string) option"

type_synonym 'e MapDecoder =
  "string \<Rightarrow> (string \<rightharpoonup> string) option \<Rightarrow> 'e option \<times> (string \<rightharpoonup> string) option"

definition Parse :: "'e MapDecoder \<Rightarrow> AminoConfig \<Rightarrow> 'e error option \<times> AminoConfig" where
  "Parse Unmarshal a =
     (case Unmarshal (HelmChartToRepoRaw a) (HelmChartToRepo a) of
        (Some err, m1) \<Rightarrow> (Some (UnmarshalingHelmChartToRepo err), a\<lparr>HelmChartToRepo := m1\<rparr>)
      | (None, m1) \<Rightarrow>
          (let a1 = a\<lparr>HelmChartToRepo := m1\<rparr>
           in case Unmarshal (AminoDeploymentToRepoRaw a1) (AminoDeploymentToRepo a1) of
                (Some err, m2) \<Rightarrow>
                  (Some (UnmarshalingAminoDeploymentToRepo err), a1\<lparr>AminoDeploymentToRepo := m2\<rparr>)
              | (None, m2) \<Rightarrow>
                  (let a2 = a1\<lparr>AminoDeploymentToRepo := m2\<rparr>
                   in case Unmarshal (AminoJobToRepoRaw a2) (AminoJobToRepo a2) of
                        (Some err, m3) \<Rightarrow>
                          (Some (UnmarshalingAminoJobToRepo err), a2\<lparr>AminoJobToRepo := m3\<rparr>)
                      | (None, m3) \<Rightarrow> (None, a2\<lparr>AminoJobToRepo := m3\<rparr>))))"

subsection \<open>Writing a comma-separated list\<close>

text \<open>
  The inputs are written by hand or by \<^verbatim>\<open>strings.Join\<close>: the entries with the separator
  between them, and \<open>key=value\<close> for a pair. These two functions state what
  "a comma-separated list of key=value pairs" is; the package does not call them.
\<close>

fun Join :: "string list \<Rightarrow> char \<Rightarrow> string" where
  "Join [] sep = []"
| "Join [x] sep = x"
| "Join (x # y # ys) sep = x @ sep # Join (y # ys) sep"

definition pair_entry :: "string \<times> string \<Rightarrow> string" where
  "pair_entry kv = fst kv @ CHR ''='' # snd kv"

subsection \<open>Test doubles\<close>

text \<open>
  A fetcher, a secret decoder and a map decoder to run the two parametrised methods on,
  and a configuration for \<open>Parse\<close>. The fetcher counts its calls in its state. It knows
  two identifiers: one whose payload the secret decoder accepts, one whose payload it
  rejects. The map decoder accepts the empty JSON object only; on it, it allocates the
  map when the field is nil and keeps the map otherwise.
\<close>

definition fake_Get :: "(nat, string) SecretFetcher" where
  "fake_Get st ident =
     (if ident = ''secret-id'' then Inr ''{data:{k:dg==},type:opaque}''
      else if ident = ''garbage-id'' then Inr ''garbage''
      else Inl ''not found'',
      Suc st)"

definition fake_Unmarshal :: "bytes \<Rightarrow> string + K8sSecret" where
  "fake_Unmarshal val =
     (if val = ''{data:{k:dg==},type:opaque}''
      then Inr \<lparr>Data = Some [''k'' \<mapsto> ''v''], Type = ''opaque''\<rparr>
      else Inl ''invalid character'')"

definition fake_MapDecoder :: "string MapDecoder" where
  "fake_MapDecoder raw field =
     (if raw = ''{}'' then (None, Some (case field of None \<Rightarrow> Map.empty | Some m \<Rightarrow> m))
      else (Some ''unexpected end of JSON input'', field))"

definition amino_example :: AminoConfig where
  "amino_example =
     \<lparr>HelmChartToRepoRaw = ''{}'', HelmChartToRepo = None,
      AminoDeploymentToRepoRaw = ''{'', AminoDeploymentToRepo = None,
      AminoJobToRepoRaw = ''{}'', AminoJobToRepo = None\<rparr>"

section \<open>Properties of Split\<close>

lemma Split_Nil [simp]: "Split [] sep = [[]]"
  by (simp add: Split.simps)

lemma Split_not_Nil [simp]: "Split s sep \<noteq> []"
  by (subst Split.simps) (simp split: option.split)

lemma Split_Cons:
  "Split (c # cs) sep =
     (if c = sep then [] # Split cs sep
      else (c # hd (Split cs sep)) # tl (Split cs sep))"
proof (cases "c = sep")
  case True
  then show ?thesis by (subst Split.simps) simp
next
  case False
  show ?thesis
  proof (cases "Index cs sep")
    case None
    with False show ?thesis
      by (simp add: Split.simps [of "c # cs"] Split.simps [of cs])
  next
    case (Some m)
    with False show ?thesis
      by (simp add: Split.simps [of "c # cs"] Split.simps [of cs])
  qed
qed

lemma length_Split: "length (Split s sep) = Suc (length (filter (\<lambda>c. c = sep) s))"
proof (induction s)
  case Nil
  show ?case by simp
next
  case (Cons c cs)
  have "length (tl (Split cs sep)) = length (Split cs sep) - 1" by simp
  moreover have "0 < length (Split cs sep)" by simp
  ultimately show ?case using Cons by (simp add: Split_Cons)
qed

text \<open>The same step with the rest split once: this is the equation to compute with.\<close>

lemma Split_step:
  "Split (c # cs) sep =
     (if c = sep then [] # Split cs sep
      else (case Split cs sep of w # ws \<Rightarrow> (c # w) # ws))"
  by (cases "Split cs sep") (simp_all add: Split_Cons)

lemma length_Split_2_iff: "length (Split s sep) = 2 \<longleftrightarrow> count_list s sep = 1"
proof -
  have "filter ((=) sep) s = filter (\<lambda>c. c = sep) s"
    by (rule filter_cong) auto
  then show ?thesis
    by (simp add: length_Split count_list_eq_length_filter)
qed

lemma Split_no_sep: "sep \<notin> set a \<Longrightarrow> Split a sep = [a]"
  by (induction a) (auto simp: Split_Cons)

lemma Split_append_sep: "sep \<notin> set a \<Longrightarrow> Split (a @ sep # b) sep = a # Split b sep"
  by (induction a) (auto simp: Split_Cons)

lemma Split_Join:
  "xs \<noteq> [] \<Longrightarrow> \<forall>x\<in>set xs. sep \<notin> set x \<Longrightarrow> Split (Join xs sep) sep = xs"
  by (induction xs sep rule: Join.induct) (auto simp: Split_no_sep Split_append_sep)

lemma Split_pair_entry:
  "CHR ''='' \<notin> set k \<Longrightarrow> CHR ''='' \<notin> set v \<Longrightarrow>
   Split (pair_entry (k, v)) CHR ''='' = [k, v]"
  by (simp add: pair_entry_def Split_append_sep Split_no_sep)

text \<open>Two parts come from exactly one separator, with the parts on its two sides.\<close>

lemma Split_two_parts:
  "Split e sep = [k, v] \<longleftrightarrow> e = k @ sep # v \<and> sep \<notin> set k \<and> sep \<notin> set v"
proof
  assume sp: "Split e sep = [k, v]"
  have "length (Split e sep) = 2" by (simp add: sp)
  then have "filter (\<lambda>c. c = sep) e \<noteq> []"
    by (auto simp add: length_Split)
  then have "sep \<in> set e"
    by (simp add: filter_empty_conv)
  from split_list_first [OF this]
  obtain a b where e: "e = a @ sep # b" and a: "sep \<notin> set a"
    by blast
  have "Split e sep = a # Split b sep"
    unfolding e using a by (rule Split_append_sep)
  with sp have ak: "a = k" and bv: "Split b sep = [v]"
    by simp_all
  have "length (Split b sep) = 1" by (simp add: bv)
  then have "filter (\<lambda>c. c = sep) b = []"
    by (simp add: length_Split)
  then have b: "sep \<notin> set b"
    by (auto simp add: filter_empty_conv)
  then have "Split b sep = [b]" by (rule Split_no_sep)
  with bv have "b = v" by simp
  with e a b ak show "e = k @ sep # v \<and> sep \<notin> set k \<and> sep \<notin> set v" by simp
next
  assume "e = k @ sep # v \<and> sep \<notin> set k \<and> sep \<notin> set v"
  then show "Split e sep = [k, v]"
    by (simp add: Split_append_sep Split_no_sep)
qed

section \<open>The loop of ProcessLabels\<close>

lemma fst_ProcessLabels:
  "fst (ProcessLabels kc s :: 'e error option \<times> K8sConfig)
     = fst (labels_loop s Map.empty (Split s CHR '','') :: 'e error option \<times> _)"
  by (simp add: ProcessLabels_def split: prod.split)

lemma labels_loop_first_bad:
  "\<forall>e\<in>set pre. length (Split e CHR ''='') = 2 \<Longrightarrow> length (Split bad CHR ''='') \<noteq> 2 \<Longrightarrow>
   fst (labels_loop t m (pre @ bad # post) :: 'e error option \<times> _) = Some (MalformedLabel bad t)"
  by (induction pre arbitrary: m) (simp_all add: Let_def)

lemma labels_loop_all_good:
  "\<forall>e\<in>set es. length (Split e CHR ''='') = 2 \<Longrightarrow>
   fst (labels_loop t m es :: 'e error option \<times> _) = None"
  by (induction es arbitrary: m) (simp_all add: Let_def)

text \<open>
  On the entries written from a list of pairs the loop adds the pairs in order, so the
  map it returns is the one of the reversed list laid over the map it started with.
\<close>

lemma labels_loop_pairs:
  "\<forall>kv\<in>set ps. CHR ''='' \<notin> set (fst kv) \<and> CHR ''='' \<notin> set (snd kv) \<Longrightarrow>
   labels_loop t m (map pair_entry ps) = (None :: 'e error option, m ++ map_of (rev ps))"
proof (induction ps arbitrary: m)
  case Nil
  show ?case by simp
next
  case (Cons p ps)
  obtain k v where p: "p = (k, v)" by (cases p)
  have sp: "Split (pair_entry (k, v)) CHR ''='' = [k, v]"
    using Cons.prems p by (simp add: Split_pair_entry)
  have "(labels_loop t m (map pair_entry (p # ps)) :: 'e error option \<times> _)
          = labels_loop t (m(k \<mapsto> v)) (map pair_entry ps)"
    using sp p by simp
  also have "\<dots> = (None, m(k \<mapsto> v) ++ map_of (rev ps))"
    by (rule Cons.IH) (use Cons.prems in simp)
  also have "m(k \<mapsto> v) ++ map_of (rev ps) = m ++ map_of (rev (p # ps))"
    by (rule ext) (simp add: p map_add_def map_of_append split: option.split)
  finally show ?case .
qed

text \<open>Looking a key up in the reversed list finds its last occurrence in the list.\<close>

lemma map_of_rev_last:
  "map_of (rev ps) k = Some v \<longleftrightarrow> (\<exists>xs ys. ps = xs @ (k, v) # ys \<and> k \<notin> fst ` set ys)"
proof (induction ps rule: rev_induct)
  case Nil
  show ?case by simp
next
  case (snoc p ps)
  obtain a b where p: "p = (a, b)" by (cases p)
  show ?case
  proof (cases "k = a")
    case True
    have "(\<exists>xs ys. ps @ [p] = xs @ (k, v) # ys \<and> k \<notin> fst ` set ys) \<longleftrightarrow> v = b"
    proof
      assume "\<exists>xs ys. ps @ [p] = xs @ (k, v) # ys \<and> k \<notin> fst ` set ys"
      then obtain xs ys where e: "ps @ [p] = xs @ (k, v) # ys" and n: "k \<notin> fst ` set ys"
        by blast
      show "v = b"
      proof (cases ys rule: rev_cases)
        case Nil
        with e p show ?thesis by simp
      next
        case (snoc zs z)
        with e have "z = p" by simp
        with snoc n p True show ?thesis by force
      qed
    next
      assume "v = b"
      with p True have "ps @ [p] = ps @ (k, v) # [] \<and> k \<notin> fst ` set []" by simp
      then show "\<exists>xs ys. ps @ [p] = xs @ (k, v) # ys \<and> k \<notin> fst ` set ys" by blast
    qed
    with p True show ?thesis by auto
  next
    case False
    have "(\<exists>xs ys. ps @ [p] = xs @ (k, v) # ys \<and> k \<notin> fst ` set ys)
          \<longleftrightarrow> (\<exists>xs ys. ps = xs @ (k, v) # ys \<and> k \<notin> fst ` set ys)"
    proof
      assume "\<exists>xs ys. ps @ [p] = xs @ (k, v) # ys \<and> k \<notin> fst ` set ys"
      then obtain xs ys where e: "ps @ [p] = xs @ (k, v) # ys" and n: "k \<notin> fst ` set ys"
        by blast
      show "\<exists>xs ys. ps = xs @ (k, v) # ys \<and> k \<notin> fst ` set ys"
      proof (cases ys rule: rev_cases)
        case Nil
        with e p False show ?thesis by simp
      next
        case (snoc zs z)
        with e have "ps = xs @ (k, v) # zs" by simp
        moreover from snoc n have "k \<notin> fst ` set zs" by simp
        ultimately show ?thesis by blast
      qed
    next
      assume "\<exists>xs ys. ps = xs @ (k, v) # ys \<and> k \<notin> fst ` set ys"
      then obtain xs ys where e: "ps = xs @ (k, v) # ys" and n: "k \<notin> fst ` set ys"
        by blast
      from e have "ps @ [p] = xs @ (k, v) # (ys @ [p])" by simp
      moreover from n p False have "k \<notin> fst ` set (ys @ [p])" by simp
      ultimately show "\<exists>xs ys. ps @ [p] = xs @ (k, v) # ys \<and> k \<notin> fst ` set ys" by blast
    qed
    with snoc.IH p False show ?thesis by simp
  qed
qed

section \<open>The loop of ProcessPrivilegedRepos\<close>

lemma repos_loop_None:
  "(repos_loop (enumerate n xs) :: 'e error option) = None \<Longrightarrow>
   \<forall>pr\<in>set xs. length (Split pr CHR ''/'') = 2"
  by (induction xs arbitrary: n) (auto simp: Let_def split: if_splits)

text \<open>An error of the loop over the whitelist names an entry and its offset.\<close>

lemma repos_loop_Some:
  "(repos_loop (enumerate n xs) :: 'e error option) = Some err \<Longrightarrow>
   \<exists>i < length xs. err = MalformedRepo (n + i) (xs ! i) \<and> length (Split (xs ! i) CHR ''/'') \<noteq> 2"
proof (induction xs arbitrary: n)
  case Nil
  then show ?case by simp
next
  case (Cons x xs)
  show ?case
  proof (cases "length (Split x CHR ''/'') = 2")
    case True
    with Cons.prems have "(repos_loop (enumerate (Suc n) xs) :: 'e error option) = Some err"
      by (simp add: Let_def)
    from Cons.IH [OF this] obtain i where "i < length xs"
      "err = MalformedRepo (Suc n + i) (xs ! i)" "length (Split (xs ! i) CHR ''/'') \<noteq> 2"
      by blast
    then have "Suc i < length (x # xs) \<and> err = MalformedRepo (n + Suc i) ((x # xs) ! Suc i)
               \<and> length (Split ((x # xs) ! Suc i) CHR ''/'') \<noteq> 2"
      by simp
    then show ?thesis by blast
  next
    case False
    with Cons.prems have "err = MalformedRepo n x" by (simp add: Let_def)
    with False have "0 < length (x # xs) \<and> err = MalformedRepo (n + 0) ((x # xs) ! 0)
               \<and> length (Split ((x # xs) ! 0) CHR ''/'') \<noteq> 2"
      by simp
    then show ?thesis by blast
  qed
qed

section \<open>The loop of ProcessGroupBindings\<close>

text \<open>
  The entries the loop accepts are those written \<open>key=value\<close> with a non-empty key and a
  non-empty value, neither containing \<open>=\<close>.
\<close>

lemma binding_ok_iff:
  "binding_ok e \<longleftrightarrow>
     (\<exists>k v. e = k @ CHR ''='' # v \<and> k \<noteq> [] \<and> v \<noteq> []
            \<and> CHR ''='' \<notin> set k \<and> CHR ''='' \<notin> set v)"
proof
  assume ok: "binding_ok e"
  then have "length (Split e CHR ''='') = 2" by (simp add: binding_ok_def)
  then obtain k v where sp: "Split e CHR ''='' = [k, v]"
    by (auto simp: length_Suc_conv numeral_2_eq_2)
  with ok have "k \<noteq> []" "v \<noteq> []" by (simp_all add: binding_ok_def)
  with sp show "\<exists>k v. e = k @ CHR ''='' # v \<and> k \<noteq> [] \<and> v \<noteq> []
            \<and> CHR ''='' \<notin> set k \<and> CHR ''='' \<notin> set v"
    by (auto simp: Split_two_parts)
next
  assume "\<exists>k v. e = k @ CHR ''='' # v \<and> k \<noteq> [] \<and> v \<noteq> []
            \<and> CHR ''='' \<notin> set k \<and> CHR ''='' \<notin> set v"
  then obtain k v where "e = k @ CHR ''='' # v \<and> CHR ''='' \<notin> set k \<and> CHR ''='' \<notin> set v"
    and ne: "k \<noteq> []" "v \<noteq> []"
    by blast
  then have "Split e CHR ''='' = [k, v]" by (simp add: Split_two_parts)
  with ne show "binding_ok e" by (simp add: binding_ok_def)
qed

text \<open>A run without error keeps every key and every value of the map non-empty.\<close>

lemma bindings_loop_inv:
  "bindings_loop m ies = (None :: 'e error option, m') \<Longrightarrow>
   \<forall>k v. m k = Some v \<longrightarrow> k \<noteq> [] \<and> v \<noteq> [] \<Longrightarrow>
   \<forall>k v. m' k = Some v \<longrightarrow> k \<noteq> [] \<and> v \<noteq> []"
proof (induction ies arbitrary: m)
  case Nil
  then show ?case by simp
next
  case (Cons p ies)
  obtain i gb where p: "p = (i, gb)" by (cases p)
  show ?case
  proof (cases "gb = []")
    case True
    with Cons.prems(1) p
    have "bindings_loop m ies = (None :: 'e error option, m')" by simp
    then show ?thesis using Cons.prems(2) by (rule Cons.IH)
  next
    case False
    let ?gbsl = "Split gb CHR ''=''"
    from Cons.prems(1) False p have len: "length ?gbsl = 2"
      by (simp add: Let_def split: if_splits)
    from Cons.prems(1) False len p have ne: "?gbsl ! 0 \<noteq> []" "?gbsl ! 1 \<noteq> []"
      by (auto simp add: Let_def split: if_splits)
    from Cons.prems(1) False len ne p
    have run: "bindings_loop (m(?gbsl ! 0 \<mapsto> ?gbsl ! 1)) ies = (None :: 'e error option, m')"
      by (simp add: Let_def)
    have inv: "\<forall>k v. (m(?gbsl ! 0 \<mapsto> ?gbsl ! 1)) k = Some v \<longrightarrow> k \<noteq> [] \<and> v \<noteq> []"
      using Cons.prems(2) ne by auto
    from run inv show ?thesis by (rule Cons.IH)
  qed
qed

lemma bindings_loop_first_bad:
  "\<forall>e\<in>set pre. e = [] \<or> binding_ok e \<Longrightarrow> gb \<noteq> [] \<Longrightarrow> \<not> binding_ok gb \<Longrightarrow>
   fst (bindings_loop m (enumerate n (pre @ gb # post)) :: 'e error option \<times> _)
     = Some (if length (Split gb CHR ''='') \<noteq> 2 then MalformedGroupBinding (n + length pre) gb
             else EmptyBinding (n + length pre) gb)"
proof (induction pre arbitrary: m n)
  case Nil
  then show ?case by (auto simp: binding_ok_def Let_def)
next
  case (Cons e pre)
  have "fst (bindings_loop m' (enumerate (Suc n) (pre @ gb # post)) :: 'e error option \<times> _)
     = Some (if length (Split gb CHR ''='') \<noteq> 2 then MalformedGroupBinding (Suc n + length pre) gb
             else EmptyBinding (Suc n + length pre) gb)" for m'
    by (rule Cons.IH) (use Cons.prems in auto)
  with Cons.prems(1) show ?case
    by (auto simp: binding_ok_def Let_def)
qed

lemma bindings_loop_skip:
  "bindings_loop m (filter (\<lambda>(i, gb). gb \<noteq> []) ies) = (bindings_loop m ies :: 'e error option \<times> _)"
proof (induction ies arbitrary: m)
  case Nil
  show ?case by simp
next
  case (Cons p ies)
  obtain i gb where p: "p = (i, gb)" by (cases p)
  show ?case
  proof (cases "gb = []")
    case True
    with p Cons.IH show ?thesis by simp
  next
    case False
    have "bindings_loop m' (filter (\<lambda>(i, gb). gb \<noteq> []) ies)
            = (bindings_loop m' ies :: 'e error option \<times> _)" for m'
      by (rule Cons.IH)
    with p False show ?thesis by (simp add: Let_def del: fun_upd_apply)
  qed
qed

lemma bindings_loop_all_empty:
  "\<forall>e\<in>set es. e = [] \<Longrightarrow> bindings_loop m (enumerate n es) = (None :: 'e error option, m)"
  by (induction es arbitrary: n) simp_all


section \<open>The loop of ProcessSecretInjections\<close>

text \<open>The loop over a list in two pieces: the second piece runs when the first returned no error.\<close>

lemma injections_loop_append:
  "injections_loop Get Unmarshal st m (xs @ ys) =
     (case injections_loop Get Unmarshal st m xs of
        (None, m1, st1) \<Rightarrow> injections_loop Get Unmarshal st1 m1 ys
      | (Some err, m1, st1) \<Rightarrow> (Some err, m1, st1))"
proof (induction xs arbitrary: st m)
  case Nil
  show ?case by simp
next
  case (Cons p xs)
  obtain i sstr where p: "p = (i, sstr)" by (cases p)
  show ?case
    by (simp add: p Let_def Cons.IH split: prod.split sum.split del: fun_upd_apply)
qed

text \<open>One well-formed entry: the fetch, then the decoding, then the rest of the list.\<close>

lemma injections_loop_entry:
  assumes "Split sstr CHR ''='' = [name, ident]" and "name \<noteq> []" and "ident \<noteq> []"
  shows "injections_loop Get Unmarshal st m ((i, sstr) # rest) =
     (case Get st ident of
        (Inl err, st1) \<Rightarrow> (Some (FetchingSecret err ident), m, st1)
      | (Inr val, st1) \<Rightarrow>
          (case Unmarshal val of
             Inl err \<Rightarrow> (Some (UnmarshalingSecret err ident), m, st1)
           | Inr secret \<Rightarrow> injections_loop Get Unmarshal st1 (m(name \<mapsto> secret)) rest))"
proof -
  from assms(1) have "sstr \<noteq> []" by auto
  with assms show ?thesis
    by (simp add: Let_def split: prod.split sum.split del: fun_upd_apply)
qed

section \<open>The claims\<close>

text \<open>
  C4. The zero-entry branch of ProcessLabels cannot be taken: splitting any string on
  the comma gives at least one token, splitting the empty string gives the one empty
  token, and ProcessLabels never returns the error "at least one label should be
  provided".
\<close>

theorem C4_zero_entry_branch_unreachable:
  "1 \<le> length (Split s CHR '','')
   \<and> Split [] CHR '','' = [[]]
   \<and> fst (ProcessLabels kc s :: 'e error option \<times> K8sConfig) \<noteq> Some NoLabelProvided"
proof -
  have len: "1 \<le> length (Split s CHR '','')"
    by (simp add: length_Split)
  have loop: "fst (labels_loop t m xs :: 'e error option \<times> _) \<noteq> Some NoLabelProvided"
    for t m xs
    by (induction xs arbitrary: m) (simp_all add: Let_def)
  have "fst (ProcessLabels kc s :: 'e error option \<times> K8sConfig) \<noteq> Some NoLabelProvided"
    using loop [of s Map.empty "Split s CHR '',''"]
    by (auto simp add: ProcessLabels_def Let_def split: prod.split)
  with len show ?thesis by simp
qed

text \<open>
  C2. ProcessLabels on the empty string returns an error (the malformed-label error
  for the one empty token), and leaves Labels a map that is not nil and has no entry.
\<close>

theorem C2_empty_string_rejected:
  "ProcessLabels kc [] = (Some (MalformedLabel [] []), kc\<lparr>Labels := Some Map.empty\<rparr>)"
  by (simp add: ProcessLabels_def)

text \<open>
  C1, as the code has it. ProcessLabels only counts the parts of an entry: it fails
  with the malformed-label error, carrying the entry and the whole input, at the first
  entry whose split on \<open>=\<close> does not give exactly two parts, and it returns no error when
  every entry gives two parts. The parts themselves are never looked at, so an entry
  with an empty key or an empty value passes.
\<close>

theorem C1_first_malformed_label:
  "(\<forall>pre bad post.
      Split s CHR '','' = pre @ bad # post
      \<and> (\<forall>e\<in>set pre. length (Split e CHR ''='') = 2)
      \<and> length (Split bad CHR ''='') \<noteq> 2
      \<longrightarrow> fst (ProcessLabels kc s :: 'e error option \<times> K8sConfig) = Some (MalformedLabel bad s))
   \<and> ((\<forall>e\<in>set (Split s CHR '',''). length (Split e CHR ''='') = 2)
      \<longrightarrow> fst (ProcessLabels kc s :: 'e error option \<times> K8sConfig) = None)"
  by (simp add: fst_ProcessLabels labels_loop_first_bad labels_loop_all_good)

text \<open>
  The theorem at \<^verbatim>\<open>"potato,onion"\<close>, which fails at \<^verbatim>\<open>potato\<close>, and at
  \<^verbatim>\<open>"a=,=b"\<close>, whose two entries both give two parts.
\<close>

theorem C1_first_malformed_label_witness:
  "fst (ProcessLabels K8sConfig_zero ''potato,onion'' :: string error option \<times> K8sConfig)
     = Some (MalformedLabel ''potato'' ''potato,onion'')
   \<and> fst (ProcessLabels K8sConfig_zero ''a=,=b'' :: string error option \<times> K8sConfig) = None"
proof -
  have s1: "Split ''potato,onion'' CHR '','' = [] @ ''potato'' # [''onion'']"
    by (simp add: Split_step)
  have b1: "length (Split ''potato'' CHR ''='') \<noteq> 2"
    by (simp add: Split_step)
  have s2: "Split ''a=,=b'' CHR '','' = [''a='', ''=b'']"
    by (simp add: Split_step)
  have g2: "\<forall>e\<in>set [''a='', ''=b'']. length (Split e CHR ''='') = 2"
    by (simp add: Split_step)
  from C1_first_malformed_label [of "''potato,onion''" K8sConfig_zero, where 'e = string] s1 b1
  have "fst (ProcessLabels K8sConfig_zero ''potato,onion'' :: string error option \<times> K8sConfig)
     = Some (MalformedLabel ''potato'' ''potato,onion'')"
    by (metis empty_iff list.set(1))
  moreover from C1_first_malformed_label [of "''a=,=b''" K8sConfig_zero, where 'e = string] s2 g2
  have "fst (ProcessLabels K8sConfig_zero ''a=,=b'' :: string error option \<times> K8sConfig) = None"
    by simp
  ultimately show ?thesis by simp
qed

text \<open>
  C1 as stated fails: the one entry of \<^verbatim>\<open>"a="\<close> has an empty value, and ProcessLabels
  accepts it and stores the empty value under \<^verbatim>\<open>a\<close>.
\<close>

theorem C1_empty_value_accepted:
  "Split ''a='' CHR '','' = [''a='']
   \<and> Split ''a='' CHR ''='' = [''a'', '''']
   \<and> ProcessLabels K8sConfig_zero ''a=''
       = (None :: string error option, K8sConfig_zero\<lparr>Labels := Some [''a'' \<mapsto> '''']\<rparr>)"
  by (simp add: ProcessLabels_def Split_step)

text \<open>
  C3. Let the input be one or more pairs written \<open>key=value\<close> and joined by commas,
  where no key and no value contains a comma or an equals sign. ProcessLabels succeeds
  and Labels is the map of exactly those pairs in which a later pair with the same key
  wins: a key has the value \<open>v\<close> if and only if the last pair with that key is \<open>(k, v)\<close>.
\<close>

theorem C3_well_formed_labels:
  assumes "pairs \<noteq> []"
    and "\<forall>kv\<in>set pairs. \<forall>c\<in>{CHR '','', CHR ''=''}. c \<notin> set (fst kv) \<and> c \<notin> set (snd kv)"
  shows "ProcessLabels kc (Join (map pair_entry pairs) CHR '','')
           = (None :: 'e error option, kc\<lparr>Labels := Some (map_of (rev pairs))\<rparr>)
         \<and> (\<forall>k v. map_of (rev pairs) k = Some v
               \<longleftrightarrow> (\<exists>xs ys. pairs = xs @ (k, v) # ys \<and> k \<notin> fst ` set ys))"
proof -
  have nosep: "\<forall>x\<in>set (map pair_entry pairs). CHR '','' \<notin> set x"
    using assms(2) by (auto simp: pair_entry_def)
  have sp: "Split (Join (map pair_entry pairs) CHR '','') CHR '','' = map pair_entry pairs"
    using assms(1) nosep by (intro Split_Join) simp_all
  have loop: "labels_loop t Map.empty (map pair_entry pairs)
                = (None :: 'e error option, map_of (rev pairs))" for t
    using labels_loop_pairs [of pairs t Map.empty] assms(2) by simp
  have "ProcessLabels kc (Join (map pair_entry pairs) CHR '','')
          = (None :: 'e error option, kc\<lparr>Labels := Some (map_of (rev pairs))\<rparr>)"
    using assms(1) by (simp add: ProcessLabels_def sp loop)
  then show ?thesis by (simp add: map_of_rev_last)
qed

text \<open>The theorem at \<^verbatim>\<open>"a=1,b=2,a=3"\<close>: the second value of \<^verbatim>\<open>a\<close> replaces the first.\<close>

theorem C3_well_formed_labels_witness:
  "ProcessLabels K8sConfig_zero ''a=1,b=2,a=3''
     = (None :: string error option,
        K8sConfig_zero\<lparr>Labels := Some [''b'' \<mapsto> ''2'', ''a'' \<mapsto> ''3'']\<rparr>)"
  using C3_well_formed_labels
    [of "[(''a'', ''1''), (''b'', ''2''), (''a'', ''3'')]" K8sConfig_zero, where 'e = string]
  by (simp add: pair_entry_def)

text \<open>
  C5, as the code has it. After a call of ProcessPrivilegedRepos that returns no error,
  the whitelist is the comma-split of the input, in input order, and every entry
  contains exactly one \<open>/\<close>. The two segments are not checked.
\<close>

theorem C5_one_slash_per_entry:
  "ProcessPrivilegedRepos kc s = (None :: 'e error option, kc') \<Longrightarrow>
   PrivilegedRepoWhitelist kc' = Split s CHR '',''
   \<and> (\<forall>pr\<in>set (PrivilegedRepoWhitelist kc'). count_list pr CHR ''/'' = 1)"
  using repos_loop_None [of 0 "Split s CHR '',''", where 'e = 'e]
  by (auto simp: ProcessPrivilegedRepos_def Let_def length_Split_2_iff)

text \<open>The theorem at \<^verbatim>\<open>"org/repo1,org/repo2"\<close>.\<close>

theorem C5_one_slash_per_entry_witness:
  "ProcessPrivilegedRepos K8sConfig_zero ''org/repo1,org/repo2''
     = (None :: string error option,
        K8sConfig_zero\<lparr>PrivilegedRepoWhitelist := [''org/repo1'', ''org/repo2'']\<rparr>)
   \<and> [''org/repo1'', ''org/repo2''] = Split ''org/repo1,org/repo2'' CHR '',''
   \<and> count_list ''org/repo1'' CHR ''/'' = 1
   \<and> count_list ''org/repo2'' CHR ''/'' = 1"
proof -
  have run: "ProcessPrivilegedRepos K8sConfig_zero ''org/repo1,org/repo2''
     = (None :: string error option,
        K8sConfig_zero\<lparr>PrivilegedRepoWhitelist := [''org/repo1'', ''org/repo2'']\<rparr>)"
    by (simp add: ProcessPrivilegedRepos_def Split_step)
  from C5_one_slash_per_entry [OF run]
  have "[''org/repo1'', ''org/repo2''] = Split ''org/repo1,org/repo2'' CHR '',''
        \<and> (\<forall>pr\<in>set [''org/repo1'', ''org/repo2'']. count_list pr CHR ''/'' = 1)"
    by (simp del: set_simps count_list.simps)
  with run show ?thesis by (simp del: count_list.simps)
qed

text \<open>
  C5 as stated fails: on the input \<^verbatim>\<open>"/"\<close> the call returns no error and the whitelist
  holds the entry \<^verbatim>\<open>/\<close>, whose owner and repository segments are both empty.
\<close>

theorem C5_empty_segments_accepted:
  "ProcessPrivilegedRepos K8sConfig_zero ''/''
     = (None :: string error option, K8sConfig_zero\<lparr>PrivilegedRepoWhitelist := [''/'']\<rparr>)
   \<and> Split ''/'' CHR ''/'' = ['''', '''']"
  by (simp add: ProcessPrivilegedRepos_def Split_step)

text \<open>
  C6. After a call of ProcessGroupBindings that returns no error, GroupBindings is a map
  in which every key and every value is non-empty. An entry that is not empty and
  does not split on \<open>=\<close> into two non-empty parts makes the call fail: the error is the
  one of the first such entry and carries its offset in the comma-split and the entry
  itself, "malformed group binding" when the split does not give two parts and
  "empty binding" when a part is empty.
\<close>

theorem C6_bindings_nonempty_or_error:
  "(ProcessGroupBindings kc s = (None :: 'e error option, kc') \<longrightarrow>
      (\<exists>m. GroupBindings kc' = Some m \<and> (\<forall>k v. m k = Some v \<longrightarrow> k \<noteq> [] \<and> v \<noteq> [])))
   \<and> (\<forall>pre gb post.
        Split s CHR '','' = pre @ gb # post
        \<and> (\<forall>e\<in>set pre. e = [] \<or> binding_ok e) \<and> gb \<noteq> [] \<and> \<not> binding_ok gb
        \<longrightarrow> fst (ProcessGroupBindings kc s :: 'e error option \<times> K8sConfig)
              = Some (if length (Split gb CHR ''='') \<noteq> 2
                      then MalformedGroupBinding (length pre) gb
                      else EmptyBinding (length pre) gb))
   \<and> ((\<exists>e\<in>set (Split s CHR '',''). e \<noteq> [] \<and> \<not> binding_ok e)
        \<longrightarrow> (\<exists>i < length (Split s CHR '','').
               fst (ProcessGroupBindings kc s :: 'e error option \<times> K8sConfig)
                 \<in> {Some (MalformedGroupBinding i (Split s CHR '','' ! i)),
                    Some (EmptyBinding i (Split s CHR '','' ! i))}))"
proof (intro conjI impI allI)
  assume run: "ProcessGroupBindings kc s = (None :: 'e error option, kc')"
  obtain err :: "'e error option" and m
    where loop: "bindings_loop Map.empty (enumerate 0 (Split s CHR '','')) = (err, m)"
    by (cases "bindings_loop Map.empty (enumerate 0 (Split s CHR '','')) :: 'e error option \<times> _")
  with run have "err = None" and kc': "kc' = kc\<lparr>GroupBindings := Some m\<rparr>"
    by (simp_all add: ProcessGroupBindings_def)
  with loop have "\<forall>k v. m k = Some v \<longrightarrow> k \<noteq> [] \<and> v \<noteq> []"
    using bindings_loop_inv [of Map.empty _ m] by simp
  with kc' show "\<exists>m. GroupBindings kc' = Some m \<and> (\<forall>k v. m k = Some v \<longrightarrow> k \<noteq> [] \<and> v \<noteq> [])"
    by simp
next
  fix pre gb post
  assume h: "Split s CHR '','' = pre @ gb # post
        \<and> (\<forall>e\<in>set pre. e = [] \<or> binding_ok e) \<and> gb \<noteq> [] \<and> \<not> binding_ok gb"
  have "fst (ProcessGroupBindings kc s :: 'e error option \<times> K8sConfig)
          = fst (bindings_loop Map.empty (enumerate 0 (Split s CHR '','')) :: 'e error option \<times> _)"
    by (simp add: ProcessGroupBindings_def split: prod.split)
  with h bindings_loop_first_bad [of pre gb Map.empty 0 post, where 'e = 'e]
  show "fst (ProcessGroupBindings kc s :: 'e error option \<times> K8sConfig)
              = Some (if length (Split gb CHR ''='') \<noteq> 2
                      then MalformedGroupBinding (length pre) gb
                      else EmptyBinding (length pre) gb)"
    by simp
next
  assume "\<exists>e\<in>set (Split s CHR '',''). e \<noteq> [] \<and> \<not> binding_ok e"
  then obtain pre gb post where sp: "Split s CHR '','' = pre @ gb # post"
    and bad: "gb \<noteq> [] \<and> \<not> binding_ok gb"
    and good: "\<forall>e\<in>set pre. \<not> (e \<noteq> [] \<and> \<not> binding_ok e)"
    using split_list_first_prop [of "Split s CHR '',''" "\<lambda>e. e \<noteq> [] \<and> \<not> binding_ok e"]
    by blast
  have "fst (ProcessGroupBindings kc s :: 'e error option \<times> K8sConfig)
          = fst (bindings_loop Map.empty (enumerate 0 (Split s CHR '','')) :: 'e error option \<times> _)"
    by (simp add: ProcessGroupBindings_def split: prod.split)
  with sp bad good bindings_loop_first_bad [of pre gb Map.empty 0 post, where 'e = 'e]
  have "fst (ProcessGroupBindings kc s :: 'e error option \<times> K8sConfig)
              = Some (if length (Split gb CHR ''='') \<noteq> 2
                      then MalformedGroupBinding (length pre) gb
                      else EmptyBinding (length pre) gb)"
    by auto
  moreover have "length pre < length (Split s CHR '','')" "Split s CHR '','' ! length pre = gb"
    using sp by simp_all
  ultimately show "\<exists>i < length (Split s CHR '','').
               fst (ProcessGroupBindings kc s :: 'e error option \<times> K8sConfig)
                 \<in> {Some (MalformedGroupBinding i (Split s CHR '','' ! i)),
                    Some (EmptyBinding i (Split s CHR '','' ! i))}"
    by (intro exI [of _ "length pre"]) auto
qed

text \<open>
  The theorem at \<^verbatim>\<open>"admins=cluster-admin"\<close>, which succeeds, at \<^verbatim>\<open>"a=b,,c=,d"\<close>, which
  fails at offset 2 on the empty value, and at \<^verbatim>\<open>"a=b,x"\<close>, which fails at offset 1.
\<close>

theorem C6_bindings_nonempty_or_error_witness:
  "ProcessGroupBindings K8sConfig_zero ''admins=cluster-admin''
     = (None :: string error option,
        K8sConfig_zero\<lparr>GroupBindings := Some [''admins'' \<mapsto> ''cluster-admin'']\<rparr>)
   \<and> (\<exists>m. GroupBindings (K8sConfig_zero\<lparr>GroupBindings := Some [''admins'' \<mapsto> ''cluster-admin'']\<rparr>)
              = Some m
           \<and> (\<forall>k v. m k = Some v \<longrightarrow> k \<noteq> [] \<and> v \<noteq> []))
   \<and> fst (ProcessGroupBindings K8sConfig_zero ''a=b,,c=,d'' :: string error option \<times> K8sConfig)
       = Some (EmptyBinding 2 ''c='')
   \<and> fst (ProcessGroupBindings K8sConfig_zero ''a=b,x'' :: string error option \<times> K8sConfig)
       = Some (MalformedGroupBinding 1 ''x'')"
proof -
  have run: "ProcessGroupBindings K8sConfig_zero ''admins=cluster-admin''
     = (None :: string error option,
        K8sConfig_zero\<lparr>GroupBindings := Some [''admins'' \<mapsto> ''cluster-admin'']\<rparr>)"
    by (simp add: ProcessGroupBindings_def Split_step)
  have inv: "\<exists>m. GroupBindings (K8sConfig_zero\<lparr>GroupBindings := Some [''admins'' \<mapsto> ''cluster-admin'']\<rparr>)
              = Some m
           \<and> (\<forall>k v. m k = Some v \<longrightarrow> k \<noteq> [] \<and> v \<noteq> [])"
    using C6_bindings_nonempty_or_error [of K8sConfig_zero "''admins=cluster-admin''"
                 "K8sConfig_zero\<lparr>GroupBindings := Some [''admins'' \<mapsto> ''cluster-admin'']\<rparr>",
              where 'e = string] run
    by blast
  have s1: "Split ''a=b,,c=,d'' CHR '','' = [''a=b'', ''''] @ ''c='' # [''d'']"
    by (simp add: Split_step)
  have p1: "\<forall>e\<in>set [''a=b'', '''']. e = [] \<or> binding_ok e"
    by (simp add: binding_ok_def Split_step)
  have b1: "''c='' \<noteq> [] \<and> \<not> binding_ok ''c='' \<and> length (Split ''c='' CHR ''='') = 2"
    by (simp add: binding_ok_def Split_step)
  have e1: "fst (ProcessGroupBindings K8sConfig_zero ''a=b,,c=,d'' :: string error option \<times> K8sConfig)
       = Some (EmptyBinding 2 ''c='')"
    using C6_bindings_nonempty_or_error [of K8sConfig_zero "''a=b,,c=,d''", where 'e = string, THEN conjunct2, THEN conjunct1,
              rule_format, of "[''a=b'', '''']" "''c=''" "[''d'']"] s1 p1 b1
    by simp
  have s2: "Split ''a=b,x'' CHR '','' = [''a=b''] @ ''x'' # []"
    by (simp add: Split_step)
  have p2: "\<forall>e\<in>set [''a=b'']. e = [] \<or> binding_ok e"
    by (simp add: binding_ok_def Split_step)
  have b2: "''x'' \<noteq> [] \<and> \<not> binding_ok ''x'' \<and> length (Split ''x'' CHR ''='') \<noteq> 2"
    by (simp add: binding_ok_def Split_step)
  have e2: "fst (ProcessGroupBindings K8sConfig_zero ''a=b,x'' :: string error option \<times> K8sConfig)
       = Some (MalformedGroupBinding 1 ''x'')"
    using C6_bindings_nonempty_or_error [of K8sConfig_zero "''a=b,x''", where 'e = string, THEN conjunct2, THEN conjunct1,
              rule_format, of "[''a=b'']" "''x''" "[]"] s2 p2 b2
    by simp
  from run inv e1 e2 show ?thesis by blast
qed

text \<open>
  C7. ProcessGroupBindings on the empty string returns no error and leaves GroupBindings
  an empty map. In general the call gives what the loop gives on the entries that are
  not empty, each with its own offset: the empty entries are skipped, and an input whose
  entries are all empty succeeds with the empty map.
\<close>

theorem C7_empty_entries_skipped:
  "ProcessGroupBindings kc [] = (None :: 'e error option, kc\<lparr>GroupBindings := Some Map.empty\<rparr>)
   \<and> (ProcessGroupBindings kc s :: 'e error option \<times> K8sConfig)
       = (case bindings_loop Map.empty
                (filter (\<lambda>(i, gb). gb \<noteq> []) (enumerate 0 (Split s CHR '','')))
          of (err, m) \<Rightarrow> (err, kc\<lparr>GroupBindings := Some m\<rparr>))
   \<and> ((\<forall>e\<in>set (Split s CHR '',''). e = []) \<longrightarrow>
        ProcessGroupBindings kc s = (None :: 'e error option, kc\<lparr>GroupBindings := Some Map.empty\<rparr>))"
  by (simp add: ProcessGroupBindings_def bindings_loop_skip bindings_loop_all_empty)

text \<open>The theorem at \<^verbatim>\<open>",,"\<close>, three empty entries.\<close>

theorem C7_empty_entries_skipped_witness:
  "ProcessGroupBindings K8sConfig_zero '',,''
     = (None :: string error option, K8sConfig_zero\<lparr>GroupBindings := Some Map.empty\<rparr>)"
proof -
  have "\<forall>e\<in>set (Split '',,'' CHR '',''). e = []"
    by (simp add: Split_step)
  with C7_empty_entries_skipped [of K8sConfig_zero "'',,''", where 'e = string] show ?thesis by blast
qed

text \<open>
  C10. ProcessPrivilegedRepos assigns the whole comma-split of the input to the whitelist
  before it looks at any token: after the call the field is that split whether or not
  an error is returned, and what the field held before plays no part. When the
  malformed-repo error is returned, it names an offset and the token of the split at that
  offset, and the field holds that token and every token after it.
\<close>

theorem C10_whitelist_assigned_first:
  "PrivilegedRepoWhitelist (snd (ProcessPrivilegedRepos kc s :: 'e error option \<times> K8sConfig))
     = Split s CHR '',''
   \<and> snd (ProcessPrivilegedRepos (kc\<lparr>PrivilegedRepoWhitelist := old\<rparr>) s :: 'e error option \<times> K8sConfig)
       = snd (ProcessPrivilegedRepos kc s :: 'e error option \<times> K8sConfig)
   \<and> (\<forall>err. fst (ProcessPrivilegedRepos kc s :: 'e error option \<times> K8sConfig) = Some err \<longrightarrow>
        (\<exists>i < length (Split s CHR '','').
            err = MalformedRepo i (Split s CHR '','' ! i)
          \<and> PrivilegedRepoWhitelist (snd (ProcessPrivilegedRepos kc s :: 'e error option \<times> K8sConfig)) ! i
              = Split s CHR '','' ! i
          \<and> drop i (PrivilegedRepoWhitelist (snd (ProcessPrivilegedRepos kc s :: 'e error option \<times> K8sConfig)))
              = drop i (Split s CHR '','')))"
proof -
  have a: "PrivilegedRepoWhitelist (snd (ProcessPrivilegedRepos kc s :: 'e error option \<times> K8sConfig))
     = Split s CHR '',''"
    by (simp add: ProcessPrivilegedRepos_def Let_def)
  have b: "snd (ProcessPrivilegedRepos (kc\<lparr>PrivilegedRepoWhitelist := old\<rparr>) s :: 'e error option \<times> K8sConfig)
       = snd (ProcessPrivilegedRepos kc s :: 'e error option \<times> K8sConfig)"
    by (simp add: ProcessPrivilegedRepos_def Let_def)
  have c: "\<exists>i < length (Split s CHR '',''). err = MalformedRepo i (Split s CHR '','' ! i)"
    if "fst (ProcessPrivilegedRepos kc s :: 'e error option \<times> K8sConfig) = Some err" for err
    using that repos_loop_Some [of 0 "Split s CHR '',''" err]
    by (auto simp add: ProcessPrivilegedRepos_def Let_def)
  show ?thesis
    unfolding a using b c by (simp add: a)
qed

text \<open>The theorem at \<^verbatim>\<open>"a/b,bad,c/d"\<close>: the error is at offset 1 and all three tokens stay.\<close>

theorem C10_whitelist_assigned_first_witness:
  "ProcessPrivilegedRepos K8sConfig_zero ''a/b,bad,c/d''
     = (Some (MalformedRepo 1 ''bad'') :: string error option,
        K8sConfig_zero\<lparr>PrivilegedRepoWhitelist := [''a/b'', ''bad'', ''c/d'']\<rparr>)
   \<and> (\<exists>i < length (Split ''a/b,bad,c/d'' CHR '','').
        (MalformedRepo 1 ''bad'' :: string error) = MalformedRepo i (Split ''a/b,bad,c/d'' CHR '','' ! i)
        \<and> drop i (PrivilegedRepoWhitelist
                    (snd (ProcessPrivilegedRepos K8sConfig_zero ''a/b,bad,c/d'' :: string error option \<times> K8sConfig)))
            = drop i (Split ''a/b,bad,c/d'' CHR '',''))"
proof -
  have run: "ProcessPrivilegedRepos K8sConfig_zero ''a/b,bad,c/d''
     = (Some (MalformedRepo 1 ''bad'') :: string error option,
        K8sConfig_zero\<lparr>PrivilegedRepoWhitelist := [''a/b'', ''bad'', ''c/d'']\<rparr>)"
    by (simp add: ProcessPrivilegedRepos_def Split_step)
  then have "fst (ProcessPrivilegedRepos K8sConfig_zero ''a/b,bad,c/d'' :: string error option \<times> K8sConfig)
     = Some (MalformedRepo 1 ''bad'')"
    by simp
  with C10_whitelist_assigned_first [of K8sConfig_zero "''a/b,bad,c/d''" "[]", where 'e = string] run
  show ?thesis by blast
qed

text \<open>
  C8. Take an entry \<open>name=id\<close> of the comma-split input, both parts non-empty, that the
  loop reaches: the entries before it were processed without error and left the map
  \<open>m1\<close> and the fetcher in the state \<open>st1\<close>. If \<open>Get id\<close> returns an error, the call
  fails with the fetching error that wraps it and carries the identifier. If \<open>Get id\<close>
  returns bytes that the decoder rejects, the call fails with the unmarshaling error
  that wraps the decoder's error and carries the identifier. If the bytes decode, the
  decoded record is stored under the name and the call goes on with the entries after.
\<close>

theorem C8_fetch_decode_store:
  assumes split: "Split injstr CHR '','' = pre @ sstr # post"
    and before: "injections_loop Get Unmarshal st Map.empty (enumerate 0 pre) = (None, m1, st1)"
    and entry: "Split sstr CHR ''='' = [name, ident]" "name \<noteq> []" "ident \<noteq> []"
  shows "(\<forall>e st2. Get st1 ident = (Inl e, st2) \<longrightarrow>
            ProcessSecretInjections Get Unmarshal st kc injstr
              = (Some (FetchingSecret e ident), kc\<lparr>SecretInjections := Some m1\<rparr>, st2))
       \<and> (\<forall>val st2 e. Get st1 ident = (Inr val, st2) \<and> Unmarshal val = Inl e \<longrightarrow>
            ProcessSecretInjections Get Unmarshal st kc injstr
              = (Some (UnmarshalingSecret e ident), kc\<lparr>SecretInjections := Some m1\<rparr>, st2))
       \<and> (\<forall>val st2 secret. Get st1 ident = (Inr val, st2) \<and> Unmarshal val = Inr secret \<longrightarrow>
            injections_loop Get Unmarshal st Map.empty (enumerate 0 (pre @ [sstr]))
              = (None, m1(name \<mapsto> secret), st2)
          \<and> ProcessSecretInjections Get Unmarshal st kc injstr
              = (case injections_loop Get Unmarshal st2 (m1(name \<mapsto> secret))
                        (enumerate (Suc (length pre)) post)
                 of (err, m, st3) \<Rightarrow> (err, kc\<lparr>SecretInjections := Some m\<rparr>, st3)))"
proof -
  have run: "injections_loop Get Unmarshal st Map.empty (enumerate 0 (pre @ sstr # rest))
      = injections_loop Get Unmarshal st1 m1 ((length pre, sstr) # enumerate (Suc (length pre)) rest)"
    for rest
    by (simp add: enumerate_append_eq injections_loop_append before)
  note step = injections_loop_entry [OF entry, of Get Unmarshal st1 m1 "length pre"]
  have top: "ProcessSecretInjections Get Unmarshal st kc injstr =
      (case injections_loop Get Unmarshal st1 m1 ((length pre, sstr) # enumerate (Suc (length pre)) post)
       of (err, m, st3) \<Rightarrow> (err, kc\<lparr>SecretInjections := Some m\<rparr>, st3))"
    by (simp only: ProcessSecretInjections_def split run)
  show ?thesis
  proof (intro conjI allI impI)
    fix e st2 assume "Get st1 ident = (Inl e, st2)"
    then show "ProcessSecretInjections Get Unmarshal st kc injstr
              = (Some (FetchingSecret e ident), kc\<lparr>SecretInjections := Some m1\<rparr>, st2)"
      unfolding top step by simp
  next
    fix val st2 e assume "Get st1 ident = (Inr val, st2) \<and> Unmarshal val = Inl e"
    then show "ProcessSecretInjections Get Unmarshal st kc injstr
              = (Some (UnmarshalingSecret e ident), kc\<lparr>SecretInjections := Some m1\<rparr>, st2)"
      unfolding top step by simp
  next
    fix val st2 secret assume "Get st1 ident = (Inr val, st2) \<and> Unmarshal val = Inr secret"
    then show "injections_loop Get Unmarshal st Map.empty (enumerate 0 (pre @ [sstr]))
              = (None, m1(name \<mapsto> secret), st2)"
      unfolding run step by (simp del: fun_upd_apply)
  next
    fix val st2 secret assume "Get st1 ident = (Inr val, st2) \<and> Unmarshal val = Inr secret"
    then show "ProcessSecretInjections Get Unmarshal st kc injstr
              = (case injections_loop Get Unmarshal st2 (m1(name \<mapsto> secret))
                        (enumerate (Suc (length pre)) post)
                 of (err, m, st3) \<Rightarrow> (err, kc\<lparr>SecretInjections := Some m\<rparr>, st3))"
      unfolding top step by (simp del: fun_upd_apply)
  qed
qed

text \<open>
  The theorem with the test doubles, at \<^verbatim>\<open>"db=secret-id"\<close> (stored),
  \<^verbatim>\<open>"db=secret-id,x=other"\<close> (the second fetch fails) and \<^verbatim>\<open>"y=garbage-id"\<close> (the
  decoding fails).
\<close>

theorem C8_fetch_decode_store_witness:
  "ProcessSecretInjections fake_Get fake_Unmarshal 0 K8sConfig_zero ''db=secret-id''
     = (None,
        K8sConfig_zero\<lparr>SecretInjections :=
          Some [''db'' \<mapsto> \<lparr>Data = Some [''k'' \<mapsto> ''v''], Type = ''opaque''\<rparr>]\<rparr>,
        1)
   \<and> ProcessSecretInjections fake_Get fake_Unmarshal 0 K8sConfig_zero ''db=secret-id,x=other''
     = (Some (FetchingSecret ''not found'' ''other''),
        K8sConfig_zero\<lparr>SecretInjections :=
          Some [''db'' \<mapsto> \<lparr>Data = Some [''k'' \<mapsto> ''v''], Type = ''opaque''\<rparr>]\<rparr>,
        2)
   \<and> ProcessSecretInjections fake_Get fake_Unmarshal 0 K8sConfig_zero ''y=garbage-id''
     = (Some (UnmarshalingSecret ''invalid character'' ''garbage-id''),
        K8sConfig_zero\<lparr>SecretInjections := Some Map.empty\<rparr>,
        1)"
proof -
  let ?sec = "\<lparr>Data = Some [''k'' \<mapsto> ''v''], Type = ''opaque''\<rparr>"
  have nil: "injections_loop fake_Get fake_Unmarshal 0 Map.empty (enumerate 0 []) = (None, Map.empty, 0)"
    by simp
  have s1: "Split ''db=secret-id'' CHR '','' = [] @ ''db=secret-id'' # []"
    by (simp add: Split_step)
  have e1: "Split ''db=secret-id'' CHR ''='' = [''db'', ''secret-id'']"
    by (simp add: Split_step)
  have g1: "fake_Get 0 ''secret-id'' = (Inr ''{data:{k:dg==},type:opaque}'', 1)
            \<and> fake_Unmarshal ''{data:{k:dg==},type:opaque}'' = Inr ?sec"
    by (simp add: fake_Get_def fake_Unmarshal_def)
  note t1 = C8_fetch_decode_store [OF s1 nil e1, of K8sConfig_zero, THEN conjunct2, THEN conjunct2, rule_format, OF _ _ g1]
  have c1: "ProcessSecretInjections fake_Get fake_Unmarshal 0 K8sConfig_zero ''db=secret-id''
     = (None, K8sConfig_zero\<lparr>SecretInjections := Some [''db'' \<mapsto> ?sec]\<rparr>, 1)"
    using t1 by simp
  have pre2: "injections_loop fake_Get fake_Unmarshal 0 Map.empty (enumerate 0 ([] @ [''db=secret-id'']))
                = (None, [''db'' \<mapsto> ?sec], 1)"
    using t1 by simp
  have s2: "Split ''db=secret-id,x=other'' CHR '','' = [''db=secret-id''] @ ''x=other'' # []"
    by (simp add: Split_step)
  have e2: "Split ''x=other'' CHR ''='' = [''x'', ''other'']"
    by (simp add: Split_step)
  have g2: "fake_Get 1 ''other'' = (Inl ''not found'', 2)"
    by (simp add: fake_Get_def)
  have pre2': "injections_loop fake_Get fake_Unmarshal 0 Map.empty (enumerate 0 [''db=secret-id''])
                = (None, [''db'' \<mapsto> ?sec], 1)"
    using pre2 by simp
  have c2: "ProcessSecretInjections fake_Get fake_Unmarshal 0 K8sConfig_zero ''db=secret-id,x=other''
     = (Some (FetchingSecret ''not found'' ''other''),
        K8sConfig_zero\<lparr>SecretInjections := Some [''db'' \<mapsto> ?sec]\<rparr>, 2)"
    using C8_fetch_decode_store [OF s2 pre2' e2, of K8sConfig_zero, THEN conjunct1, rule_format, OF _ _ g2] by simp
  have s3: "Split ''y=garbage-id'' CHR '','' = [] @ ''y=garbage-id'' # []"
    by (simp add: Split_step)
  have e3: "Split ''y=garbage-id'' CHR ''='' = [''y'', ''garbage-id'']"
    by (simp add: Split_step)
  have g3: "fake_Get 0 ''garbage-id'' = (Inr ''garbage'', 1)
            \<and> fake_Unmarshal ''garbage'' = Inl ''invalid character''"
    by (simp add: fake_Get_def fake_Unmarshal_def)
  have c3: "ProcessSecretInjections fake_Get fake_Unmarshal 0 K8sConfig_zero ''y=garbage-id''
     = (Some (UnmarshalingSecret ''invalid character'' ''garbage-id''),
        K8sConfig_zero\<lparr>SecretInjections := Some Map.empty\<rparr>, 1)"
    using C8_fetch_decode_store [OF s3 nil e3, of K8sConfig_zero, THEN conjunct2, THEN conjunct1, rule_format, OF _ _ g3]
    by simp
  from c1 c2 c3 show ?thesis by simp
qed

text \<open>
  C9. Parse decodes the chart field, then the deployment field, then the job field, and
  stops at the first decoder error. The error names the field that failed and wraps the
  decoder's error; the fields after it keep the value they had, and the result is the
  same for any other decoder that answers alike on the fields up to the failing one,
  so the later fields are not decoded. When no decoding fails, Parse returns no error.
\<close>

theorem C9_parse_fails_fast:
  "(\<forall>e m1.
      Unmarshal (HelmChartToRepoRaw a) (HelmChartToRepo a) = (Some e, m1) \<longrightarrow>
        Parse Unmarshal a = (Some (UnmarshalingHelmChartToRepo e), a\<lparr>HelmChartToRepo := m1\<rparr>)
      \<and> AminoDeploymentToRepo (snd (Parse Unmarshal a)) = AminoDeploymentToRepo a
      \<and> AminoJobToRepo (snd (Parse Unmarshal a)) = AminoJobToRepo a
      \<and> (\<forall>U'. U' (HelmChartToRepoRaw a) (HelmChartToRepo a) = (Some e, m1) \<longrightarrow>
            Parse U' a = Parse Unmarshal a))
   \<and> (\<forall>m1 e m2.
      Unmarshal (HelmChartToRepoRaw a) (HelmChartToRepo a) = (None, m1)
      \<and> Unmarshal (AminoDeploymentToRepoRaw a) (AminoDeploymentToRepo a) = (Some e, m2) \<longrightarrow>
        Parse Unmarshal a
          = (Some (UnmarshalingAminoDeploymentToRepo e),
             a\<lparr>HelmChartToRepo := m1, AminoDeploymentToRepo := m2\<rparr>)
      \<and> AminoJobToRepo (snd (Parse Unmarshal a)) = AminoJobToRepo a
      \<and> (\<forall>U'. U' (HelmChartToRepoRaw a) (HelmChartToRepo a) = (None, m1)
              \<and> U' (AminoDeploymentToRepoRaw a) (AminoDeploymentToRepo a) = (Some e, m2) \<longrightarrow>
            Parse U' a = Parse Unmarshal a))
   \<and> (\<forall>m1 m2 e m3.
      Unmarshal (HelmChartToRepoRaw a) (HelmChartToRepo a) = (None, m1)
      \<and> Unmarshal (AminoDeploymentToRepoRaw a) (AminoDeploymentToRepo a) = (None, m2)
      \<and> Unmarshal (AminoJobToRepoRaw a) (AminoJobToRepo a) = (Some e, m3) \<longrightarrow>
        Parse Unmarshal a
          = (Some (UnmarshalingAminoJobToRepo e),
             a\<lparr>HelmChartToRepo := m1, AminoDeploymentToRepo := m2, AminoJobToRepo := m3\<rparr>))
   \<and> (\<forall>m1 m2 m3.
      Unmarshal (HelmChartToRepoRaw a) (HelmChartToRepo a) = (None, m1)
      \<and> Unmarshal (AminoDeploymentToRepoRaw a) (AminoDeploymentToRepo a) = (None, m2)
      \<and> Unmarshal (AminoJobToRepoRaw a) (AminoJobToRepo a) = (None, m3) \<longrightarrow>
        Parse Unmarshal a
          = (None, a\<lparr>HelmChartToRepo := m1, AminoDeploymentToRepo := m2, AminoJobToRepo := m3\<rparr>))"
  by (simp add: Parse_def Let_def)

text \<open>
  The theorem at a configuration whose deployment field is not valid JSON, and at one
  whose chart field is not.
\<close>

theorem C9_parse_fails_fast_witness:
  "Parse fake_MapDecoder amino_example
     = (Some (UnmarshalingAminoDeploymentToRepo ''unexpected end of JSON input''),
        amino_example\<lparr>HelmChartToRepo := Some Map.empty\<rparr>)
   \<and> AminoJobToRepo (snd (Parse fake_MapDecoder amino_example)) = None
   \<and> Parse fake_MapDecoder (amino_example\<lparr>HelmChartToRepoRaw := ''['', AminoDeploymentToRepoRaw := ''{}''\<rparr>)
     = (Some (UnmarshalingHelmChartToRepo ''unexpected end of JSON input''),
        amino_example\<lparr>HelmChartToRepoRaw := ''['', AminoDeploymentToRepoRaw := ''{}''\<rparr>)"
proof -
  have d1: "fake_MapDecoder (HelmChartToRepoRaw amino_example) (HelmChartToRepo amino_example)
              = (None, Some Map.empty)
          \<and> fake_MapDecoder (AminoDeploymentToRepoRaw amino_example) (AminoDeploymentToRepo amino_example)
              = (Some ''unexpected end of JSON input'', None)"
    by (simp add: fake_MapDecoder_def amino_example_def)
  note t = C9_parse_fails_fast [of fake_MapDecoder amino_example, THEN conjunct2, THEN conjunct1, rule_format, OF d1]
  let ?b = "amino_example\<lparr>HelmChartToRepoRaw := ''['', AminoDeploymentToRepoRaw := ''{}''\<rparr>"
  have d2: "fake_MapDecoder (HelmChartToRepoRaw ?b) (HelmChartToRepo ?b)
              = (Some ''unexpected end of JSON input'', None)"
    by (simp add: fake_MapDecoder_def amino_example_def)
  note u = C9_parse_fails_fast [of fake_MapDecoder ?b, THEN conjunct1, rule_format, OF d2]
  from t u show ?thesis by (simp add: amino_example_def)
qed

end
